theory Spec2Isabelle
  imports Complex_Main "HOL-Library.Word"
begin

section \<open>Word timings and the lookup \<open>findWordIndex\<close>\<close>

text \<open>
  The reader screens of the mobile client (\<open>PdfViewerScreen\<close>) and of the web client
  (\<open>Home\<close>) receive an array of word timings from the text-to-speech endpoint and map the
  playback position to the index of the word being spoken.

  A JavaScript \<open>number\<close> holding a time or a pixel offset is modelled as a \<open>real\<close>, an
  array index as an \<open>int\<close>. The lookup only compares numbers, and on finite doubles
  comparison is the order of the reals; the numbers that reach it are finite, the timings
  coming from JSON and the position from the clock of the player. The field \<open>end\<close> of
  the source is written \<open>end'\<close>, since \<open>end\<close> is a keyword here.
\<close>

record WordTiming =
  word :: string
  start :: real
  end' :: real

text \<open>
  \<open>xs[i]\<close>: reading an index outside the array gives \<open>undefined\<close>, here \<open>None\<close>.
  Reading a property of \<open>undefined\<close>, as in \<open>timings[mid].start\<close>, throws a TypeError.
\<close>

definition get_at :: "'a list \<Rightarrow> int \<Rightarrow> 'a option" where
  "get_at xs i = (if 0 \<le> i \<and> i < int (length xs) then Some (xs ! nat i) else None)"

text \<open>
  The \<open>while (lo <= hi)\<close> loop of the mobile client. Nothing is assumed about its
  termination: the result is \<open>None\<close> when the loop does not return a value (it runs forever,
  or the read of \<open>timings[mid].start\<close> throws). The midpoint \<open>(lo + hi) >> 1\<close> is written
  as the floor of the half, which it is as long as \<open>lo + hi < 2^31\<close> (beyond that the sum
  wraps around); the 32-bit shift itself is \<open>sar1\<close> below.
\<close>

partial_function (option) findWordIndex_loop ::
  "WordTiming list \<Rightarrow> real \<Rightarrow> int \<Rightarrow> int \<Rightarrow> int option" where
  "findWordIndex_loop timings posMs lo hi =
     (if lo \<le> hi then
        (case get_at timings ((lo + hi) div 2) of
           None \<Rightarrow> None
         | Some m \<Rightarrow>
             if posMs \<ge> start m \<and> posMs < end' m then Some ((lo + hi) div 2)
             else if posMs < start m
               then findWordIndex_loop timings posMs lo ((lo + hi) div 2 - 1)
               else findWordIndex_loop timings posMs ((lo + hi) div 2 + 1) hi)
      else Some (max 0 (lo - 1)))"

definition findWordIndex :: "WordTiming list \<Rightarrow> real \<Rightarrow> int option" where
  "findWordIndex timings posMs =
     (if length timings = 0 then Some (- 1)
      else
        (case get_at timings 0 of
           None \<Rightarrow> None
         | Some first \<Rightarrow>
             if posMs < start first then Some (- 1)
             else
               (case get_at timings (int (length timings) - 1) of
                  None \<Rightarrow> None
                | Some lastw \<Rightarrow>
                    if posMs \<ge> start lastw then Some (int (length timings) - 1)
                    else findWordIndex_loop timings posMs 0 (int (length timings) - 1))))"

text \<open>The web client has its own copy of the function, translated separately.\<close>

partial_function (option) web_findWordIndex_loop ::
  "WordTiming list \<Rightarrow> real \<Rightarrow> int \<Rightarrow> int \<Rightarrow> int option" where
  "web_findWordIndex_loop timings posMs lo hi =
     (if lo \<le> hi then
        (case get_at timings ((lo + hi) div 2) of
           None \<Rightarrow> None
         | Some m \<Rightarrow>
             if posMs \<ge> start m \<and> posMs < end' m then Some ((lo + hi) div 2)
             else if posMs < start m
               then web_findWordIndex_loop timings posMs lo ((lo + hi) div 2 - 1)
               else web_findWordIndex_loop timings posMs ((lo + hi) div 2 + 1) hi)
      else Some (max 0 (lo - 1)))"

definition web_findWordIndex :: "WordTiming list \<Rightarrow> real \<Rightarrow> int option" where
  "web_findWordIndex timings posMs =
     (if length timings = 0 then Some (- 1)
      else
        (case get_at timings 0 of
           None \<Rightarrow> None
         | Some first \<Rightarrow>
             if posMs < start first then Some (- 1)
             else
               (case get_at timings (int (length timings) - 1) of
                  None \<Rightarrow> None
                | Some lastw \<Rightarrow>
                    if posMs \<ge> start lastw then Some (int (length timings) - 1)
                    else web_findWordIndex_loop timings posMs 0 (int (length timings) - 1))))"

text \<open>
  The midpoint as the code computes it. \<open>x >> 1\<close> takes \<open>x\<close> modulo \<open>2^32\<close>, reads the 32
  bits as a signed number and halves it, rounding down. \<open>findWordIndex_int32\<close> is the
  function with this midpoint. It is shown below to be \<open>findWordIndex\<close> on every array of
  at most \<open>2^30\<close> entries, which is more than the engines that run the clients hold in one
  array; the properties are stated for \<open>findWordIndex\<close>.
\<close>

definition sar1 :: "int \<Rightarrow> int" where
  "sar1 x = sint (word_of_int x :: 32 word) div 2"

partial_function (option) findWordIndex_loop_int32 ::
  "WordTiming list \<Rightarrow> real \<Rightarrow> int \<Rightarrow> int \<Rightarrow> int option" where
  "findWordIndex_loop_int32 timings posMs lo hi =
     (if lo \<le> hi then
        (case get_at timings (sar1 (lo + hi)) of
           None \<Rightarrow> None
         | Some m \<Rightarrow>
             if posMs \<ge> start m \<and> posMs < end' m then Some (sar1 (lo + hi))
             else if posMs < start m
               then findWordIndex_loop_int32 timings posMs lo (sar1 (lo + hi) - 1)
               else findWordIndex_loop_int32 timings posMs (sar1 (lo + hi) + 1) hi)
      else Some (max 0 (lo - 1)))"

definition findWordIndex_int32 :: "WordTiming list \<Rightarrow> real \<Rightarrow> int option" where
  "findWordIndex_int32 timings posMs =
     (if length timings = 0 then Some (- 1)
      else
        (case get_at timings 0 of
           None \<Rightarrow> None
         | Some first \<Rightarrow>
             if posMs < start first then Some (- 1)
             else
               (case get_at timings (int (length timings) - 1) of
                  None \<Rightarrow> None
                | Some lastw \<Rightarrow>
                    if posMs \<ge> start lastw then Some (int (length timings) - 1)
                    else findWordIndex_loop_int32 timings posMs 0 (int (length timings) - 1))))"

text \<open>
  The timings the lookup is written for: every span has positive width and ends no later
  than the next one starts. Such a sequence is sorted by \<open>start\<close>.
\<close>

fun sorted_spans :: "WordTiming list \<Rightarrow> bool" where
  "sorted_spans [] = True"
| "sorted_spans [w] = (start w < end' w)"
| "sorted_spans (w # v # ws) = (start w < end' w \<and> end' w \<le> start v \<and> sorted_spans (v # ws))"


section \<open>The mobile client: \<open>PdfViewerScreen\<close>\<close>

text \<open>
  The state of the screen that the highlight and the auto-scroll depend on: React state
  (\<open>wordTimings\<close>, \<open>currentWordIndex\<close>, \<open>showReader\<close>, \<open>audioUri\<close>, \<open>audioLoaded\<close>,
  \<open>pagesRead\<close>) and refs (\<open>wordTimingsRef\<close>, \<open>currentWordRef\<close>, \<open>wordYPositions\<close>,
  \<open>lastScrollY\<close>). Two logs record what the screen does to the outside: \<open>published\<close> holds
  the arguments of the calls of \<open>setCurrentWordIndex\<close>, \<open>scrolled\<close> the \<open>y\<close> of the calls of
  \<open>scrollTo\<close>, oldest first. The audio player, the progress animation and the alerts are not
  part of the model. A state update is taken to be in place when the next handler runs.
\<close>

record mobile_state =
  wordTimings :: "WordTiming list"
  wordTimingsRef :: "WordTiming list"
  currentWordRef :: int
  currentWordIndex :: int
  showReader :: bool
  wordYPositions :: "real list option"
  lastScrollY :: real
  audioUri :: "string option"
  audioLoaded :: bool
  pagesRead :: "int list"
  published :: "int list"
  scrolled :: "real list"

definition initial_state :: mobile_state where
  "initial_state =
     \<lparr>wordTimings = [], wordTimingsRef = [], currentWordRef = - 1, currentWordIndex = - 1,
      showReader = False, wordYPositions = None, lastScrollY = 0, audioUri = None,
      audioLoaded = False, pagesRead = [], published = [], scrolled = []\<rparr>"

definition setCurrentWordIndex :: "int \<Rightarrow> mobile_state \<Rightarrow> mobile_state" where
  "setCurrentWordIndex idx st = st\<lparr>currentWordIndex := idx, published := published st @ [idx]\<rparr>"

text \<open>
  The effect on \<open>position\<close> (the player's time in milliseconds). It throws, or does not
  return, when the lookup does.
\<close>

definition trackWord :: "mobile_state \<Rightarrow> real \<Rightarrow> mobile_state option" where
  "trackWord st position =
     (if length (wordTimingsRef st) = 0 then Some st
      else
        (case findWordIndex (wordTimingsRef st) position of
           None \<Rightarrow> None
         | Some idx \<Rightarrow>
             if idx \<noteq> currentWordRef st
             then Some (setCurrentWordIndex idx (st\<lparr>currentWordRef := idx\<rparr>))
             else Some st))"

text \<open>Position updates handled one after the other.\<close>

fun trackWords :: "mobile_state \<Rightarrow> real list \<Rightarrow> mobile_state option" where
  "trackWords st [] = Some st"
| "trackWords st (p # ps) =
     (case trackWord st p of None \<Rightarrow> None | Some st' \<Rightarrow> trackWords st' ps)"

text \<open>The effect on \<open>playerStatus.didJustFinish\<close>.\<close>

definition playbackFinished :: "mobile_state \<Rightarrow> mobile_state" where
  "playbackFinished st = setCurrentWordIndex (- 1) (st\<lparr>currentWordRef := - 1\<rparr>)"

text \<open>
  The auto-scroll effect, in two parts: \<open>scrollTarget\<close> is the constant of that name in the
  effect, \<open>None\<close> where the effect returns before computing it; \<open>autoScroll\<close> is the whole
  effect. \<open>SCREEN_HEIGHT\<close> is the height of the window, read once when the module loads.
  The product and the difference are taken exactly.
  The call \<open>scrollViewRef.current?.scrollTo\<close> is made when the \<open>ScrollView\<close> is mounted,
  and the screen renders it when \<open>showReader && wordTimings.length > 0\<close>.
\<close>

definition scrollViewMounted :: "mobile_state \<Rightarrow> bool" where
  "scrollViewMounted st = (showReader st \<and> length (wordTimings st) > 0)"

definition scrollTarget :: "real \<Rightarrow> mobile_state \<Rightarrow> real option" where
  "scrollTarget SCREEN_HEIGHT st =
     (if currentWordIndex st < 0 \<or> \<not> showReader st then None
      else
        (case wordYPositions st of
           None \<Rightarrow> None
         | Some positions \<Rightarrow>
             if currentWordIndex st \<ge> int (length positions) then None
             else if positions ! nat (currentWordIndex st) = 0 \<and> currentWordIndex st > 5 then None
             else Some (max 0 (positions ! nat (currentWordIndex st) - SCREEN_HEIGHT * 0.35))))"

definition autoScroll :: "real \<Rightarrow> mobile_state \<Rightarrow> mobile_state" where
  "autoScroll SCREEN_HEIGHT st =
     (case scrollTarget SCREEN_HEIGHT st of
        None \<Rightarrow> st
      | Some target \<Rightarrow>
          if \<bar>target - lastScrollY st\<bar> > 20
          then st\<lparr>lastScrollY := target,
                 scrolled := (if scrollViewMounted st then scrolled st @ [target]
                              else scrolled st)\<rparr>
          else st)"

text \<open>The \<open>onLayout\<close> callback of the \<open>i\<close>-th word.\<close>

definition onLayout :: "nat \<Rightarrow> real \<Rightarrow> mobile_state \<Rightarrow> mobile_state" where
  "onLayout i y st =
     (case wordYPositions st of
        None \<Rightarrow> st
      | Some positions \<Rightarrow>
          if i < length positions then st\<lparr>wordYPositions := Some (positions[i := y])\<rparr> else st)"

text \<open>
  \<open>handleRead\<close> on its successful path, in the three parts that run one after the other:
  the resets before the request, the writes when the response has arrived, and
  \<open>loadAndPlayAudio\<close>.
\<close>

definition handleRead_reset :: "mobile_state \<Rightarrow> mobile_state" where
  "handleRead_reset st =
     (setCurrentWordIndex (- 1) (st\<lparr>showReader := False, currentWordRef := - 1\<rparr>))
       \<lparr>wordYPositions := None, lastScrollY := 0\<rparr>"

definition handleRead_data :: "int list \<Rightarrow> WordTiming list \<Rightarrow> mobile_state \<Rightarrow> mobile_state" where
  "handleRead_data pages timings st =
     st\<lparr>pagesRead := pages, wordTimings := timings, wordTimingsRef := timings,
        wordYPositions := Some (replicate (length timings) 0)\<rparr>"

definition loadAndPlayAudio :: "string \<Rightarrow> mobile_state \<Rightarrow> mobile_state" where
  "loadAndPlayAudio url st = st\<lparr>audioUri := Some url, audioLoaded := True, showReader := True\<rparr>"

definition handleRead :: "int list \<Rightarrow> WordTiming list \<Rightarrow> string \<Rightarrow> mobile_state \<Rightarrow> mobile_state" where
  "handleRead pages timings url st =
     loadAndPlayAudio url (handleRead_data pages timings (handleRead_reset st))"

definition closeAudio :: "mobile_state \<Rightarrow> mobile_state" where
  "closeAudio st =
     (setCurrentWordIndex (- 1)
        (st\<lparr>audioUri := None, audioLoaded := False, pagesRead := [], wordTimings := [],
           wordTimingsRef := [], currentWordRef := - 1\<rparr>))
       \<lparr>showReader := False, wordYPositions := None, lastScrollY := 0\<rparr>"

text \<open>
  The states the screen reaches from its initial state by the handlers and effects above
  and by the two buttons that show and hide the reader. In all of them the table of
  positions, when there is one, has one entry for each word: \<open>positions_match\<close>.
\<close>

definition positions_match :: "mobile_state \<Rightarrow> bool" where
  "positions_match st =
     (case wordYPositions st of
        None \<Rightarrow> True
      | Some positions \<Rightarrow> length positions = length (wordTimings st))"

inductive mobile_reachable :: "mobile_state \<Rightarrow> bool" where
  initial: "mobile_reachable initial_state"
| track: "mobile_reachable st \<Longrightarrow> trackWord st position = Some st' \<Longrightarrow> mobile_reachable st'"
| finished: "mobile_reachable st \<Longrightarrow> mobile_reachable (playbackFinished st)"
| scroll: "mobile_reachable st \<Longrightarrow> mobile_reachable (autoScroll SCREEN_HEIGHT st)"
| layout: "mobile_reachable st \<Longrightarrow> mobile_reachable (onLayout i y st)"
| read_reset: "mobile_reachable st \<Longrightarrow> mobile_reachable (handleRead_reset st)"
| read_data: "mobile_reachable st \<Longrightarrow> mobile_reachable (handleRead_data pages timings st)"
| play: "mobile_reachable st \<Longrightarrow> mobile_reachable (loadAndPlayAudio url st)"
| close: "mobile_reachable st \<Longrightarrow> mobile_reachable (closeAudio st)"
| toggle: "mobile_reachable st \<Longrightarrow> mobile_reachable (st\<lparr>showReader := b\<rparr>)"

section \<open>The web client: \<open>Home\<close>\<close>

text \<open>
  The web client keeps a table of the words' \<open>span\<close> elements (\<open>wordRefs\<close>) instead of
  measured offsets, and reads their position from the page when it scrolls. An element is
  named by a number. \<open>dom\<close> is what the page answers at that moment: the top and height of
  the reader's bounding rectangle (\<open>None\<close> when \<open>readerRef.current\<close> is null) and the top of
  an element's bounding rectangle. \<open>web_audioRef\<close> is the \<open>currentTime\<close> of the audio
  element, in seconds, \<open>None\<close> when \<open>audioRef.current\<close> is null. \<open>web_published\<close> logs
  the calls of \<open>setCurrentWordIndex\<close>, \<open>web_scrolled\<close> the elements \<open>scrollIntoView\<close> was
  called on. \<open>web_loading\<close> is the state \<open>loading\<close>, true while a narration is being
  generated. The status line, the progress bar and the library of the page are not part of
  the model.
\<close>

record dom =
  readerRect :: "(real \<times> real) option"
  elTop :: "nat \<Rightarrow> real"

record web_state =
  web_wordTimings :: "WordTiming list"
  web_currentWordIndex :: int
  web_showReader :: bool
  web_wordRefs :: "nat option list"
  web_audioRef :: "real option"
  web_audioUrl :: "string option"
  web_pagesRead :: "int list"
  web_isPlaying :: bool
  web_loading :: bool
  web_audioCurrentTime :: real
  web_published :: "int list"
  web_scrolled :: "nat list"

definition web_initial_state :: web_state where
  "web_initial_state =
     \<lparr>web_wordTimings = [], web_currentWordIndex = - 1, web_showReader = False,
      web_wordRefs = [], web_audioRef = None, web_audioUrl = None, web_pagesRead = [],
      web_isPlaying = False, web_loading = False, web_audioCurrentTime = 0,
      web_published = [], web_scrolled = []\<rparr>"

definition web_setCurrentWordIndex :: "int \<Rightarrow> web_state \<Rightarrow> web_state" where
  "web_setCurrentWordIndex idx st =
     st\<lparr>web_currentWordIndex := idx, web_published := web_published st @ [idx]\<rparr>"

definition handleTimeUpdate :: "web_state \<Rightarrow> web_state option" where
  "handleTimeUpdate st =
     (case web_audioRef st of
        None \<Rightarrow> Some st
      | Some currentTime \<Rightarrow>
          if length (web_wordTimings st) = 0 then Some st
          else
            (case web_findWordIndex (web_wordTimings st) (currentTime * 1000) of
               None \<Rightarrow> None
             | Some idx \<Rightarrow>
                 Some ((if idx \<noteq> web_currentWordIndex st then web_setCurrentWordIndex idx st
                        else st)\<lparr>web_audioCurrentTime := currentTime\<rparr>)))"

text \<open>The \<open>timeupdate\<close> events of an audio element whose time takes the given values.\<close>

fun timeUpdates :: "web_state \<Rightarrow> real list \<Rightarrow> web_state option" where
  "timeUpdates st [] = Some st"
| "timeUpdates st (t # ts) =
     (case handleTimeUpdate (st\<lparr>web_audioRef := Some t\<rparr>) of
        None \<Rightarrow> None
      | Some st' \<Rightarrow> timeUpdates st' ts)"

definition web_autoScroll :: "dom \<Rightarrow> web_state \<Rightarrow> web_state" where
  "web_autoScroll d st =
     (if web_currentWordIndex st < 0 \<or> \<not> web_showReader st then st
      else
        (case get_at (web_wordRefs st) (web_currentWordIndex st) of
           Some (Some el) \<Rightarrow>
             (case readerRect d of
                None \<Rightarrow> st
              | Some (ctop, cheight) \<Rightarrow>
                  if elTop d el < ctop + cheight * 0.3 \<or> elTop d el > ctop + cheight * 0.7
                  then st\<lparr>web_scrolled := web_scrolled st @ [el]\<rparr>
                  else st)
         | _ \<Rightarrow> st))"

text \<open>
  The \<open>ref\<close> callback of the \<open>i\<close>-th word, \<open>wordRefs.current[i] = el\<close>. An assignment
  beyond the end of a JavaScript array extends it; the holes read as \<open>undefined\<close>.
\<close>

definition setWordRef :: "nat \<Rightarrow> nat option \<Rightarrow> web_state \<Rightarrow> web_state" where
  "setWordRef i el st =
     st\<lparr>web_wordRefs :=
          (if i < length (web_wordRefs st) then (web_wordRefs st)[i := el]
           else web_wordRefs st @ replicate (i - length (web_wordRefs st)) None @ [el])\<rparr>"

text \<open>
  What the page renders. The player bar, with the audio element in it, is rendered when
  \<open>audioUrl && !loading\<close>; the reader inside it, with one \<open>span\<close> for each word, when
  \<open>showReader && wordTimings.length > 0\<close>. \<open>spansMounted\<close> is the number of word elements
  on the page.
\<close>

definition playerMounted :: "web_state \<Rightarrow> bool" where
  "playerMounted st = (web_audioUrl st \<noteq> None \<and> \<not> web_loading st)"

definition spansMounted :: "web_state \<Rightarrow> nat" where
  "spansMounted st =
     (if playerMounted st \<and> web_showReader st \<and> length (web_wordTimings st) > 0
      then length (web_wordTimings st) else 0)"

text \<open>
  The render that follows a handler. \<open>pre\<close> is the state the page on screen was rendered
  from, \<open>post\<close> the state the handler has left. React first calls the \<open>ref\<close> callback
  of every word element of the old page with \<open>null\<close>, then the callback of every word
  element of the new page with the element (the element of word \<open>i\<close> is named \<open>i\<close>); and
  \<open>audioRef.current\<close> is the audio element when the new page has one, a new one starting
  at time 0, and is \<open>null\<close> otherwise.
\<close>

definition commit :: "web_state \<Rightarrow> web_state \<Rightarrow> web_state" where
  "commit pre post =
     (fold (\<lambda>i. setWordRef i (Some i)) [0..<spansMounted post]
        (fold (\<lambda>i. setWordRef i None) [0..<spansMounted pre] post))
       \<lparr>web_audioRef :=
          (if playerMounted post
           then (case web_audioRef post of None \<Rightarrow> Some 0 | Some t \<Rightarrow> Some t)
           else None)\<rparr>"

definition web_onEnded :: "web_state \<Rightarrow> web_state" where
  "web_onEnded st = (web_setCurrentWordIndex (- 1) st)\<lparr>web_isPlaying := False\<rparr>"

text \<open>
  \<open>handleRead\<close> on its successful path: the writes before the request, and the writes
  when the response has arrived, \<open>setLoading(false)\<close> of the \<open>finally\<close> block included.
\<close>

definition web_handleRead_reset :: "web_state \<Rightarrow> web_state" where
  "web_handleRead_reset st =
     (web_setCurrentWordIndex (- 1) (st\<lparr>web_loading := True\<rparr>))
       \<lparr>web_wordTimings := [], web_pagesRead := [], web_showReader := False\<rparr>"

definition web_handleRead_data ::
  "int list \<Rightarrow> WordTiming list \<Rightarrow> string \<Rightarrow> web_state \<Rightarrow> web_state" where
  "web_handleRead_data pages timings url st =
     st\<lparr>web_wordTimings := timings, web_wordRefs := replicate (length timings) None,
        web_pagesRead := pages, web_audioUrl := Some url, web_showReader := True,
        web_loading := False\<rparr>"

definition web_handleRead ::
  "int list \<Rightarrow> WordTiming list \<Rightarrow> string \<Rightarrow> web_state \<Rightarrow> web_state" where
  "web_handleRead pages timings url st =
     web_handleRead_data pages timings url (web_handleRead_reset st)"

text \<open>
  \<open>handleStop\<close>: the writes of the handler (\<open>handleStop_updates\<close>), and the page after
  the stop, which is the render of those writes. With \<open>audioUrl\<close> null the player bar is
  gone, so the render takes the word elements and the audio element off the page.
\<close>

definition handleStop_updates :: "web_state \<Rightarrow> web_state" where
  "handleStop_updates st =
     (web_setCurrentWordIndex (- 1)
        (st\<lparr>web_audioRef := map_option (\<lambda>_. 0) (web_audioRef st), web_audioUrl := None,
           web_wordTimings := []\<rparr>))
       \<lparr>web_pagesRead := [], web_showReader := False, web_isPlaying := False\<rparr>"

definition handleStop :: "web_state \<Rightarrow> web_state" where
  "handleStop st = commit st (handleStop_updates st)"

text \<open>
  The states the page reaches from its initial state: each handler is followed by the
  render of its writes. In all of them only the entries of the words on the page hold an
  element: \<open>refs_mounted\<close>.
\<close>

definition refs_mounted :: "web_state \<Rightarrow> bool" where
  "refs_mounted st = (set (drop (spansMounted st) (web_wordRefs st)) \<subseteq> {None})"

inductive web_reachable :: "web_state \<Rightarrow> bool" where
  web_initial: "web_reachable web_initial_state"
| web_time: "web_reachable st \<Longrightarrow> web_audioRef st \<noteq> None \<Longrightarrow>
     handleTimeUpdate (st\<lparr>web_audioRef := Some t\<rparr>) = Some st' \<Longrightarrow> web_reachable (commit st st')"
| web_scroll: "web_reachable st \<Longrightarrow> web_reachable (web_autoScroll d st)"
| web_ended: "web_reachable st \<Longrightarrow> web_reachable (commit st (web_onEnded st))"
| web_read_reset: "web_reachable st \<Longrightarrow> web_reachable (commit st (web_handleRead_reset st))"
| web_read_data: "web_reachable st \<Longrightarrow>
     web_reachable (commit st (web_handleRead_data pages timings url st))"
| web_stop: "web_reachable st \<Longrightarrow> web_reachable (handleStop st)"
| web_toggle: "web_reachable st \<Longrightarrow> web_reachable (commit st (st\<lparr>web_showReader := b\<rparr>))"

section \<open>Concrete inputs\<close>

definition scenario1 :: "WordTiming list" where
  "scenario1 =
     [\<lparr>word = ''The'', start = 0, end' = 200\<rparr>,
      \<lparr>word = ''cat'', start = 200, end' = 500\<rparr>,
      \<lparr>word = ''sat'', start = 500, end' = 900\<rparr>]"

definition gap_timings :: "WordTiming list" where
  "gap_timings =
     [\<lparr>word = ''a'', start = 0, end' = 200\<rparr>,
      \<lparr>word = ''b'', start = 400, end' = 600\<rparr>]"

definition unsorted_timings :: "WordTiming list" where
  "unsorted_timings =
     [\<lparr>word = ''late'', start = 100, end' = 200\<rparr>,
      \<lparr>word = ''early'', start = 0, end' = 50\<rparr>]"

text \<open>
  The mobile screen after \<open>scenario1\<close> has been loaded; after the three words have been
  laid out; while the second word is spoken; and, after the auto-scroll effect has run
  for it on a window 800 pixels high, while the third word is spoken.
\<close>

definition mobile_loaded :: mobile_state where
  "mobile_loaded = handleRead [1] scenario1 ''audio.mp3'' initial_state"

definition mobile_measured :: mobile_state where
  "mobile_measured = onLayout 2 420 (onLayout 1 400 (onLayout 0 400 mobile_loaded))"

definition mobile_at_cat :: mobile_state where
  "mobile_at_cat = setCurrentWordIndex 1 (mobile_measured\<lparr>currentWordRef := 1\<rparr>)"

definition mobile_at_sat :: mobile_state where
  "mobile_at_sat = setCurrentWordIndex 2 ((autoScroll 800 mobile_at_cat)\<lparr>currentWordRef := 2\<rparr>)"

text \<open>
  Two pages with a reader 1000 pixels high whose top is at 0. In the first the words sit
  on a line 900 pixels down, as the last line of a text does when the reader cannot scroll
  any further. In the second they sit on a line 500 pixels down.
\<close>

definition dom_last_line :: dom where
  "dom_last_line = \<lparr>readerRect = Some (0, 1000), elTop = (\<lambda>el. 900)\<rparr>"

definition dom_middle :: dom where
  "dom_middle = \<lparr>readerRect = Some (0, 1000), elTop = (\<lambda>el. 500)\<rparr>"

text \<open>
  The web page after \<open>scenario1\<close> has been loaded; after the audio element and the three
  words have been mounted; after the \<open>timeupdate\<close> at 0.25 s, while the second word is
  spoken; the same with the audio element at time \<open>t\<close> (in seconds); and, after the
  auto-scroll effect has run for the second word on the page \<open>dom_last_line\<close>, after the
  \<open>timeupdate\<close> at 0.6 s, while the third word is spoken.
\<close>

definition web_loaded :: web_state where
  "web_loaded = web_handleRead [1] scenario1 ''audio.mp3'' web_initial_state"

definition web_mounted :: web_state where
  "web_mounted =
     (setWordRef 2 (Some 2) (setWordRef 1 (Some 1) (setWordRef 0 (Some 0) web_loaded)))
       \<lparr>web_audioRef := Some 0\<rparr>"

definition web_at_cat :: web_state where
  "web_at_cat =
     (web_setCurrentWordIndex 1 (web_mounted\<lparr>web_audioRef := Some 0.25\<rparr>))
       \<lparr>web_audioCurrentTime := 0.25\<rparr>"

definition web_playing_cat :: "real \<Rightarrow> web_state" where
  "web_playing_cat t = web_at_cat\<lparr>web_audioRef := Some t\<rparr>"

definition web_at_sat :: web_state where
  "web_at_sat =
     (web_setCurrentWordIndex 2
        ((web_autoScroll dom_last_line web_at_cat)\<lparr>web_audioRef := Some 0.6\<rparr>))
       \<lparr>web_audioCurrentTime := 0.6\<rparr>"

text \<open>
  The mobile screen in the scene of \<open>dom_middle\<close>: the second word has been measured 500
  pixels down, nothing has been scrolled yet, and the second word is spoken.
\<close>

definition mobile_middle :: mobile_state where
  "mobile_middle = setCurrentWordIndex 1 ((onLayout 1 500 mobile_loaded)\<lparr>currentWordRef := 1\<rparr>)"

section \<open>The lookup returns, and where\<close>

text \<open>
  Whatever the bounds and the timings, each turn of the loop reads an index between \<open>lo\<close>
  and \<open>hi\<close> and then moves one bound past it, so \<open>hi + 1 - lo\<close> shrinks.
\<close>

lemma loop_range:
  assumes "0 \<le> lo" "lo \<le> int (length T)" "hi < int (length T)" "0 < length T"
  shows "\<exists>r. findWordIndex_loop T pos lo hi = Some r \<and> 0 \<le> r \<and> r < int (length T)"
  using assms
proof (induction "nat (hi + 1 - lo)" arbitrary: lo hi rule: less_induct)
  case less
  show ?case
  proof (cases "lo \<le> hi")
    case False
    with less.prems show ?thesis
      by (subst findWordIndex_loop.simps) auto
  next
    case True
    define mid where "mid = (lo + hi) div 2"
    have mid: "lo \<le> mid" "mid \<le> hi" using True by (auto simp: mid_def)
    then have g: "get_at T mid = Some (T ! nat mid)"
      using less.prems by (simp add: get_at_def)
    have L: "\<exists>r. findWordIndex_loop T pos lo (mid - 1) = Some r \<and> 0 \<le> r \<and> r < int (length T)"
      using less.prems mid by (intro less.hyps) auto
    have R: "\<exists>r. findWordIndex_loop T pos (mid + 1) hi = Some r \<and> 0 \<le> r \<and> r < int (length T)"
      using less.prems mid by (intro less.hyps) auto
    show ?thesis
      using L R g mid less.prems True
      by (subst findWordIndex_loop.simps) (auto simp: mid_def[symmetric])
  qed
qed

lemma web_findWordIndex_loop_eq:
  "web_findWordIndex_loop T pos lo hi = findWordIndex_loop T pos lo hi"
proof (induction "nat (hi + 1 - lo)" arbitrary: lo hi rule: less_induct)
  case less
  show ?case
  proof (cases "lo \<le> hi")
    case False
    then show ?thesis
      by (subst web_findWordIndex_loop.simps, subst findWordIndex_loop.simps) simp
  next
    case True
    define mid where "mid = (lo + hi) div 2"
    have mid: "lo \<le> mid" "mid \<le> hi" using True by (auto simp: mid_def)
    have L: "web_findWordIndex_loop T pos lo (mid - 1) = findWordIndex_loop T pos lo (mid - 1)"
      using mid by (intro less.hyps) auto
    have R: "web_findWordIndex_loop T pos (mid + 1) hi = findWordIndex_loop T pos (mid + 1) hi"
      using mid by (intro less.hyps) auto
    show ?thesis
      using L R
      by (subst web_findWordIndex_loop.simps, subst findWordIndex_loop.simps)
        (simp add: mid_def[symmetric] split: option.splits)
  qed
qed

lemma web_findWordIndex_eq: "web_findWordIndex T pos = findWordIndex T pos"
  unfolding web_findWordIndex_def findWordIndex_def web_findWordIndex_loop_eq by (rule refl)

text \<open>
  The 32-bit midpoint is the floor of the half for a sum below \<open>2^31\<close>, and the sums of
  the loop are below it on an array of at most \<open>2^30\<close> entries.
\<close>

lemma sar1_half: "0 \<le> x \<Longrightarrow> x < 2 ^ 31 \<Longrightarrow> sar1 x = x div 2"
  by (simp add: sar1_def sint_sbintrunc' signed_take_bit_int_eq_self)

lemma findWordIndex_loop_int32_eq:
  assumes "length T \<le> 2 ^ 30" "0 \<le> lo" "hi < int (length T)"
  shows "findWordIndex_loop_int32 T pos lo hi = findWordIndex_loop T pos lo hi"
  using assms(2,3)
proof (induction "nat (hi + 1 - lo)" arbitrary: lo hi rule: less_induct)
  case less
  show ?case
  proof (cases "lo \<le> hi")
    case False
    then show ?thesis
      by (subst findWordIndex_loop_int32.simps, subst findWordIndex_loop.simps) simp
  next
    case True
    define mid where "mid = (lo + hi) div 2"
    have mid: "lo \<le> mid" "mid \<le> hi" using True by (auto simp: mid_def)
    have "int (length T) \<le> 2 ^ 30"
      using assms(1) by (metis of_nat_le_iff of_nat_numeral of_nat_power)
    then have "lo + hi < 2 ^ 31" "0 \<le> lo + hi" using less.prems True by auto
    then have s: "sar1 (lo + hi) = mid" by (simp add: sar1_half mid_def)
    have L: "findWordIndex_loop_int32 T pos lo (mid - 1) = findWordIndex_loop T pos lo (mid - 1)"
      using mid less.prems by (intro less.hyps) auto
    have R: "findWordIndex_loop_int32 T pos (mid + 1) hi = findWordIndex_loop T pos (mid + 1) hi"
      using mid less.prems by (intro less.hyps) auto
    show ?thesis
      using L R
      by (subst findWordIndex_loop_int32.simps, subst findWordIndex_loop.simps)
        (simp add: s mid_def[symmetric] split: option.splits)
  qed
qed

lemma findWordIndex_int32_eq:
  assumes "length T \<le> 2 ^ 30"
  shows "findWordIndex_int32 T pos = findWordIndex T pos"
proof -
  have eq: "findWordIndex_loop_int32 T pos 0 (int (length T) - 1) =
        findWordIndex_loop T pos 0 (int (length T) - 1)"
    using assms by (rule findWordIndex_loop_int32_eq) simp_all
  show ?thesis
    unfolding findWordIndex_int32_def findWordIndex_def eq by (rule refl)
qed

lemma get_at_first: "T \<noteq> [] \<Longrightarrow> get_at T 0 = Some (T ! 0)"
  by (simp add: get_at_def)

lemma get_at_last: "T \<noteq> [] \<Longrightarrow> get_at T (int (length T) - 1) = Some (T ! (length T - 1))"
proof -
  assume "T \<noteq> []"
  moreover have "nat (int (length T) - 1) = length T - 1" by simp
  ultimately show ?thesis by (simp add: get_at_def)
qed

lemma findWordIndex_result:
  "\<exists>r. findWordIndex T pos = Some r \<and>
     (if T = [] \<or> pos < start (T ! 0) then r = - 1 else 0 \<le> r \<and> r < int (length T))"
proof (cases "T = []")
  case True
  then show ?thesis by (simp add: findWordIndex_def)
next
  case False
  then have n: "0 < length T" by simp
  obtain r where r: "findWordIndex_loop T pos 0 (int (length T) - 1) = Some r"
    "0 \<le> r" "r < int (length T)"
    using loop_range[of 0 T "int (length T) - 1" pos] n by auto
  from False r show ?thesis
    by (simp add: findWordIndex_def get_at_first get_at_last)
qed

text \<open>The lookups of the example scenarios.\<close>

lemma scenario1_lookups:
  "findWordIndex scenario1 150 = Some 0" "findWordIndex scenario1 500 = Some 2"
  "findWordIndex scenario1 999999 = Some 2" "findWordIndex scenario1 (- 5) = Some (- 1)"
  "findWordIndex gap_timings 300 = Some 0" "findWordIndex [] 100 = Some (- 1)"
  by (simp_all add: scenario1_def gap_timings_def findWordIndex_def get_at_def
      findWordIndex_loop.simps)

section \<open>The lookup on sorted spans\<close>

lemma sorted_spans_nth:
  "sorted_spans T \<Longrightarrow> i < length T \<Longrightarrow> start (T ! i) < end' (T ! i)"
proof (induction T arbitrary: i rule: sorted_spans.induct)
  case (3 w v ws)
  then show ?case by (cases i) auto
qed auto

lemma sorted_spans_Suc:
  "sorted_spans T \<Longrightarrow> Suc i < length T \<Longrightarrow> end' (T ! i) \<le> start (T ! Suc i)"
proof (induction T arbitrary: i rule: sorted_spans.induct)
  case (3 w v ws)
  then show ?case by (cases i) auto
qed auto

lemma sorted_spans_end_start:
  assumes "sorted_spans T" "i < j" "j < length T"
  shows "end' (T ! i) \<le> start (T ! j)"
  using assms(2,3)
proof (induction j)
  case 0
  then show ?case by simp
next
  case (Suc j)
  show ?case
  proof (cases "i = j")
    case True
    with Suc.prems assms(1) show ?thesis by (simp add: sorted_spans_Suc)
  next
    case False
    with Suc.prems have "i < j" "j < length T" by auto
    then have "end' (T ! i) \<le> start (T ! j)" by (rule Suc.IH)
    also have "\<dots> < end' (T ! j)" using assms(1) \<open>j < length T\<close> by (rule sorted_spans_nth)
    also have "\<dots> \<le> start (T ! Suc j)" using assms(1) Suc.prems(2) by (rule sorted_spans_Suc)
    finally show ?thesis by simp
  qed
qed

lemma sorted_spans_start_mono:
  assumes "sorted_spans T" "i \<le> j" "j < length T"
  shows "start (T ! i) \<le> start (T ! j)"
proof (cases "i = j")
  case False
  with assms have "i < j" by simp
  from sorted_spans_end_start[OF assms(1) this assms(3)] sorted_spans_nth[OF assms(1), of i] assms
  show ?thesis by simp
qed simp

text \<open>
  \<open>sorted_spans\<close> is the condition on the indices, and such timings are sorted by \<open>start\<close>.
\<close>

lemma sorted_spans_iff:
  "sorted_spans T \<longleftrightarrow>
     (\<forall>i<length T. start (T ! i) < end' (T ! i)) \<and>
     (\<forall>i. Suc i < length T \<longrightarrow> end' (T ! i) \<le> start (T ! Suc i))"
proof (induction T rule: sorted_spans.induct)
  case 1
  show ?case by simp
next
  case (2 w)
  show ?case by simp
next
  case (3 w v ws)
  have a: "(\<forall>i<length (w # v # ws). start ((w # v # ws) ! i) < end' ((w # v # ws) ! i)) \<longleftrightarrow>
        start w < end' w \<and> (\<forall>i<length (v # ws). start ((v # ws) ! i) < end' ((v # ws) ! i))"
    by (simp add: All_less_Suc2)
  have b: "(\<forall>i. Suc i < length (w # v # ws) \<longrightarrow>
              end' ((w # v # ws) ! i) \<le> start ((w # v # ws) ! Suc i)) \<longleftrightarrow>
        end' w \<le> start v \<and>
        (\<forall>i. Suc i < length (v # ws) \<longrightarrow> end' ((v # ws) ! i) \<le> start ((v # ws) ! Suc i))"
    (is "?L \<longleftrightarrow> ?R")
  proof
    assume l: ?L
    have "end' w \<le> start v" using l[rule_format, of 0] by simp
    moreover have "end' ((v # ws) ! i) \<le> start ((v # ws) ! Suc i)" if "Suc i < length (v # ws)" for i
      using l[rule_format, of "Suc i"] that by simp
    ultimately show ?R by blast
  next
    assume r: ?R
    show ?L
    proof (intro allI impI)
      fix i assume "Suc i < length (w # v # ws)"
      then show "end' ((w # v # ws) ! i) \<le> start ((w # v # ws) ! Suc i)"
        using r by (cases i) auto
    qed
  qed
  show ?case using 3 a b by auto
qed

lemma sorted_spans_sorted: "sorted_spans T \<Longrightarrow> sorted (map start T)"
  by (auto simp: sorted_iff_nth_mono intro: sorted_spans_start_mono)

text \<open>
  On sorted spans the loop finds the last word that has started: the index \<open>i\<close> with
  \<open>start (T ! i) \<le> pos\<close> whose successor, if there is one, starts after \<open>pos\<close>.
\<close>

lemma loop_sorted:
  assumes ok: "sorted_spans T"
    and i: "i < length T" "start (T ! i) \<le> pos"
    and nxt: "Suc i < length T \<longrightarrow> pos < start (T ! Suc i)"
    and b: "0 \<le> lo" "lo \<le> int i + 1" "int i \<le> hi" "hi < int (length T)"
  shows "findWordIndex_loop T pos lo hi = Some (int i)"
  using b
proof (induction "nat (hi + 1 - lo)" arbitrary: lo hi rule: less_induct)
  case less
  show ?case
  proof (cases "lo \<le> hi")
    case False
    with less.prems have "lo = int i + 1" by simp
    with False show ?thesis
      by (subst findWordIndex_loop.simps) simp
  next
    case True
    define mid where "mid = (lo + hi) div 2"
    have mid: "lo \<le> mid" "mid \<le> hi" using True by (auto simp: mid_def)
    define k where "k = nat mid"
    have k: "mid = int k" "k < length T" using mid less.prems by (auto simp: k_def)
    have g: "get_at T mid = Some (T ! k)"
      using k by (simp add: get_at_def)
    have above: "pos < start (T ! k)" if "i < k"
    proof -
      from that k have "Suc i < length T" by simp
      with nxt have "pos < start (T ! Suc i)" by simp
      also have "\<dots> \<le> start (T ! k)"
        using ok _ k(2) by (rule sorted_spans_start_mono) (use that in simp)
      finally show ?thesis .
    qed
    have below: "end' (T ! k) \<le> pos" if "k < i"
      using sorted_spans_end_start[OF ok that i(1)] i(2) by simp
    consider (hit) "start (T ! k) \<le> pos" "pos < end' (T ! k)"
      | (left) "pos < start (T ! k)"
      | (right) "start (T ! k) \<le> pos" "end' (T ! k) \<le> pos"
      by linarith
    then show ?thesis
    proof cases
      case hit
      have "k = i"
      proof (rule ccontr)
        assume "k \<noteq> i"
        then consider "i < k" | "k < i" by linarith
        then show False using above below hit by cases auto
      qed
      with hit g True k show ?thesis
        by (subst findWordIndex_loop.simps) (simp add: mid_def[symmetric])
    next
      case left
      have "\<not> k \<le> i"
      proof
        assume "k \<le> i"
        from sorted_spans_start_mono[OF ok this i(1)] i(2) left show False by simp
      qed
      then have "int i \<le> mid - 1" using k by simp
      with less.prems mid
      have "findWordIndex_loop T pos lo (mid - 1) = Some (int i)"
        by (intro less.hyps) auto
      with left g True show ?thesis
        by (subst findWordIndex_loop.simps) (simp add: mid_def[symmetric])
    next
      case right
      have "k \<le> i" using above right(1) by (cases "i < k") auto
      then have "mid + 1 \<le> int i + 1" using k by simp
      with less.prems mid
      have "findWordIndex_loop T pos (mid + 1) hi = Some (int i)"
        by (intro less.hyps) auto
      with right g True show ?thesis
        by (subst findWordIndex_loop.simps) (simp add: mid_def[symmetric])
    qed
  qed
qed

lemma findWordIndex_sorted:
  assumes ok: "sorted_spans T"
    and i: "i < length T" "start (T ! i) \<le> pos"
    and nxt: "Suc i < length T \<longrightarrow> pos < start (T ! Suc i)"
  shows "findWordIndex T pos = Some (int i)"
proof -
  have n: "0 < length T" using i(1) by (cases T) simp_all
  have g0: "get_at T 0 = Some (T ! 0)" using n by (simp add: get_at_def)
  have li: "int (length T - 1) = int (length T) - 1" using n by (cases T) simp_all
  have "nat (int (length T) - 1) = length T - 1" by simp
  then have gl: "get_at T (int (length T) - 1) = Some (T ! (length T - 1))"
    using n by (simp add: get_at_def)
  have first: "\<not> pos < start (T ! 0)"
    using sorted_spans_start_mono[OF ok _ i(1), of 0] i(2) by simp
  show ?thesis
  proof (cases "start (T ! (length T - 1)) \<le> pos")
    case True
    have "i = length T - 1"
    proof (rule ccontr)
      assume "i \<noteq> length T - 1"
      with i have s: "Suc i < length T" by simp
      with nxt have "pos < start (T ! Suc i)" by simp
      also have "\<dots> \<le> start (T ! (length T - 1))"
        using ok by (rule sorted_spans_start_mono) (use s in auto)
      finally show False using True by simp
    qed
    with True first g0 gl n li show ?thesis
      by (simp add: findWordIndex_def)
  next
    case False
    have "findWordIndex_loop T pos 0 (int (length T) - 1) = Some (int i)"
      using ok i nxt by (rule loop_sorted) (use n i in auto)
    with False first g0 gl n show ?thesis
      by (simp add: findWordIndex_def)
  qed
qed

lemma last_start_index:
  assumes ok: "sorted_spans T" and T: "T \<noteq> []" and p: "start (T ! 0) \<le> pos"
  shows "\<exists>i<length T. start (T ! i) \<le> pos \<and> (Suc i < length T \<longrightarrow> pos < start (T ! Suc i))"
proof -
  define S where "S = {j. j < length T \<and> start (T ! j) \<le> pos}"
  have fin: "finite S" by (simp add: S_def)
  have ne: "S \<noteq> {}" using T p by (auto simp: S_def)
  define i where "i = Max S"
  have "i \<in> S" unfolding i_def using fin ne by (rule Max_in)
  then have i: "i < length T" "start (T ! i) \<le> pos" by (auto simp: S_def)
  have "pos < start (T ! Suc i)" if "Suc i < length T"
  proof (rule ccontr)
    assume "\<not> pos < start (T ! Suc i)"
    with that have "Suc i \<in> S" by (simp add: S_def)
    then have "Suc i \<le> i" unfolding i_def using fin by (intro Max_ge)
    then show False by simp
  qed
  with i show ?thesis by blast
qed

text \<open>
  Claim C1 (exact containment). If the spans of \<open>T\<close> have positive width and do not
  overlap, and \<open>pos\<close> lies in the span of word \<open>i\<close> (\<open>T[i].start <= pos < T[i].end\<close>), then
  \<open>findWordIndex(T, pos)\<close> returns \<open>i\<close>, in the mobile client and in the web client.
\<close>

theorem findWordIndex_containment:
  assumes "sorted_spans T" and "i < length T"
    and "start (T ! i) \<le> pos" and "pos < end' (T ! i)"
  shows "findWordIndex T pos = Some (int i) \<and> web_findWordIndex T pos = Some (int i)"
proof -
  have "pos < start (T ! Suc i)" if "Suc i < length T"
    using sorted_spans_Suc[OF assms(1) that] assms(4) by simp
  then have "findWordIndex T pos = Some (int i)"
    using assms by (intro findWordIndex_sorted) auto
  then show ?thesis by (simp add: web_findWordIndex_eq)
qed

theorem findWordIndex_containment_witness:
  "sorted_spans scenario1 \<and> 1 < length scenario1 \<and> start (scenario1 ! 1) \<le> 250 \<and>
   250 < end' (scenario1 ! 1) \<and>
   findWordIndex scenario1 250 = Some 1 \<and> web_findWordIndex scenario1 250 = Some 1"
  using findWordIndex_containment[of scenario1 1 250] by (simp add: scenario1_def)

text \<open>
  Claim C2 (trailing position), as amended. For a non-empty \<open>T\<close> and a position \<open>pos\<close> with
  \<open>pos >= T[last].start\<close> and \<open>pos >= T[0].start\<close>, \<open>findWordIndex(T, pos)\<close> returns the last
  index, also when \<open>pos\<close> is beyond the end of the last word. The second condition follows
  from the first when \<open>T\<close> is sorted by \<open>start\<close>.
\<close>

theorem findWordIndex_trailing:
  assumes "T \<noteq> []" and "start (T ! (length T - 1)) \<le> pos" and "start (T ! 0) \<le> pos"
  shows "findWordIndex T pos = Some (int (length T) - 1) \<and>
         web_findWordIndex T pos = Some (int (length T) - 1)"
  using assms by (simp add: web_findWordIndex_eq findWordIndex_def get_at_first get_at_last)

theorem findWordIndex_trailing_witness:
  "scenario1 \<noteq> [] \<and> start (scenario1 ! (length scenario1 - 1)) \<le> 999999 \<and>
   start (scenario1 ! 0) \<le> 999999 \<and>
   findWordIndex scenario1 999999 = Some (int (length scenario1) - 1) \<and>
   web_findWordIndex scenario1 999999 = Some (int (length scenario1) - 1)"
  using findWordIndex_trailing[of scenario1 999999] by (simp add: scenario1_def)

text \<open>
  Without the second condition the claim fails: the test against the first word comes
  first in the code. In \<open>unsorted_timings\<close> the last word starts at 0 and the first at 100;
  at position 10 the lookup returns \<open>-1\<close>, not the last index 1.
\<close>

theorem findWordIndex_trailing_counterexample:
  "unsorted_timings \<noteq> [] \<and> start (unsorted_timings ! (length unsorted_timings - 1)) \<le> 10 \<and>
   findWordIndex unsorted_timings 10 = Some (- 1) \<and>
   web_findWordIndex unsorted_timings 10 = Some (- 1) \<and>
   int (length unsorted_timings) - 1 = 1"
  by (simp add: unsorted_timings_def findWordIndex_def web_findWordIndex_def get_at_def)

text \<open>
  Claim C3 (gap fallback). If the spans of \<open>T\<close> have positive width and do not overlap,
  and \<open>pos\<close> lies in the gap between word \<open>i\<close> and word \<open>i + 1\<close>
  (\<open>T[i].end <= pos < T[i+1].start\<close>), then \<open>findWordIndex(T, pos)\<close> returns \<open>i\<close>, the word
  before the gap.
\<close>

theorem findWordIndex_gap:
  assumes "sorted_spans T" and "Suc i < length T"
    and "end' (T ! i) \<le> pos" and "pos < start (T ! Suc i)"
  shows "findWordIndex T pos = Some (int i) \<and> web_findWordIndex T pos = Some (int i)"
proof -
  have i: "i < length T" using assms(2) by simp
  have "start (T ! i) \<le> pos"
    using sorted_spans_nth[OF assms(1) i] assms(3) by simp
  then have "findWordIndex T pos = Some (int i)"
    using assms i by (intro findWordIndex_sorted) auto
  then show ?thesis by (simp add: web_findWordIndex_eq)
qed

theorem findWordIndex_gap_witness:
  "sorted_spans gap_timings \<and> Suc 0 < length gap_timings \<and> end' (gap_timings ! 0) \<le> 300 \<and>
   300 < start (gap_timings ! Suc 0) \<and>
   findWordIndex gap_timings 300 = Some 0 \<and> web_findWordIndex gap_timings 300 = Some 0"
  using findWordIndex_gap[of gap_timings 0 300] by (simp add: gap_timings_def)

text \<open>
  Claim C4 (the sentinel and the range). For every \<open>T\<close>, sorted or not, and every \<open>pos\<close>,
  \<open>findWordIndex(T, pos)\<close> returns a number \<open>r\<close>; \<open>r = -1\<close> exactly when \<open>T\<close> is empty or
  \<open>pos < T[0].start\<close>, and otherwise \<open>0 <= r <= length(T) - 1\<close>.
\<close>

theorem findWordIndex_sentinel_range:
  "\<exists>r. findWordIndex T pos = Some r \<and> web_findWordIndex T pos = Some r \<and>
     (r = - 1 \<longleftrightarrow> T = [] \<or> pos < start (T ! 0)) \<and>
     (r \<noteq> - 1 \<longrightarrow> 0 \<le> r \<and> r \<le> int (length T) - 1)"
proof -
  obtain r where r: "findWordIndex T pos = Some r"
    "if T = [] \<or> pos < start (T ! 0) then r = - 1 else 0 \<le> r \<and> r < int (length T)"
    using findWordIndex_result by blast
  from r(2) have "(r = - 1 \<longleftrightarrow> T = [] \<or> pos < start (T ! 0))"
    "r \<noteq> - 1 \<longrightarrow> 0 \<le> r \<and> r \<le> int (length T) - 1"
    by (auto split: if_splits)
  with r(1) show ?thesis by (simp add: web_findWordIndex_eq)
qed

theorem findWordIndex_sentinel_range_witness:
  "\<exists>r. findWordIndex unsorted_timings 150 = Some r \<and>
     web_findWordIndex unsorted_timings 150 = Some r \<and> r \<noteq> - 1 \<and>
     unsorted_timings \<noteq> [] \<and> start (unsorted_timings ! 0) \<le> 150 \<and>
     0 \<le> r \<and> r \<le> int (length unsorted_timings) - 1"
  using findWordIndex_sentinel_range[of unsorted_timings 150]
  by (auto simp: unsorted_timings_def)

text \<open>
  Claim C5 (termination). For every \<open>T\<close> (unsorted, with equal starts, with spans of width
  zero or less) and every \<open>pos\<close>, \<open>findWordIndex(T, pos)\<close> returns a value: the loop ends and
  no read throws. The loop is defined without any assumption of termination, so that a
  run that does not end, or throws, would be the value \<open>None\<close>.
\<close>

theorem findWordIndex_terminates:
  "\<exists>r. findWordIndex T pos = Some r \<and> web_findWordIndex T pos = Some r"
  using findWordIndex_result[of T pos] by (auto simp: web_findWordIndex_eq)

text \<open>
  Claim C10 (the lookup is monotone). If the spans of \<open>T\<close> have positive width and do not
  overlap and \<open>pos1 <= pos2\<close>, then \<open>findWordIndex(T, pos1) <= findWordIndex(T, pos2)\<close>.
\<close>

theorem findWordIndex_mono:
  assumes ok: "sorted_spans T" and le: "pos1 \<le> pos2"
  shows "\<exists>r1 r2. findWordIndex T pos1 = Some r1 \<and> findWordIndex T pos2 = Some r2 \<and>
           web_findWordIndex T pos1 = Some r1 \<and> web_findWordIndex T pos2 = Some r2 \<and> r1 \<le> r2"
proof -
  obtain r1 where r1: "findWordIndex T pos1 = Some r1"
    "if T = [] \<or> pos1 < start (T ! 0) then r1 = - 1 else 0 \<le> r1 \<and> r1 < int (length T)"
    using findWordIndex_result by blast
  obtain r2 where r2: "findWordIndex T pos2 = Some r2"
    "if T = [] \<or> pos2 < start (T ! 0) then r2 = - 1 else 0 \<le> r2 \<and> r2 < int (length T)"
    using findWordIndex_result by blast
  have "r1 \<le> r2"
  proof (cases "T = [] \<or> pos1 < start (T ! 0)")
    case True
    with r1(2) r2(2) show ?thesis by (auto split: if_splits)
  next
    case False
    then have T: "T \<noteq> []" and p1: "start (T ! 0) \<le> pos1" by auto
    from p1 le have p2: "start (T ! 0) \<le> pos2" by simp
    obtain i1 where i1: "i1 < length T" "start (T ! i1) \<le> pos1"
      "Suc i1 < length T \<longrightarrow> pos1 < start (T ! Suc i1)"
      using last_start_index[OF ok T p1] by blast
    obtain i2 where i2: "i2 < length T" "start (T ! i2) \<le> pos2"
      "Suc i2 < length T \<longrightarrow> pos2 < start (T ! Suc i2)"
      using last_start_index[OF ok T p2] by blast
    have e1: "r1 = int i1" using findWordIndex_sorted[OF ok i1] r1(1) by simp
    have e2: "r2 = int i2" using findWordIndex_sorted[OF ok i2] r2(1) by simp
    have "i1 \<le> i2"
    proof (rule ccontr)
      assume "\<not> i1 \<le> i2"
      then have lt: "Suc i2 \<le> i1" by simp
      with i1(1) have "Suc i2 < length T" by simp
      with i2(3) have "pos2 < start (T ! Suc i2)" by simp
      also have "\<dots> \<le> start (T ! i1)" using ok lt i1(1) by (rule sorted_spans_start_mono)
      also have "\<dots> \<le> pos1" by (rule i1(2))
      finally show False using le by simp
    qed
    with e1 e2 show ?thesis by simp
  qed
  with r1(1) r2(1) show ?thesis by (simp add: web_findWordIndex_eq)
qed

theorem findWordIndex_mono_witness:
  "sorted_spans gap_timings \<and> (300 :: real) \<le> 450 \<and>
   (\<exists>r1 r2. findWordIndex gap_timings 300 = Some r1 \<and> findWordIndex gap_timings 450 = Some r2 \<and>
      web_findWordIndex gap_timings 300 = Some r1 \<and> web_findWordIndex gap_timings 450 = Some r2 \<and>
      r1 \<le> r2)"
  using findWordIndex_mono[of gap_timings 300 450] by (simp add: gap_timings_def)

section \<open>The highlight and the scroll\<close>

text \<open>Every handler and effect keeps one entry of the table for each word.\<close>

lemma positions_match_trackWord:
  "positions_match st \<Longrightarrow> trackWord st position = Some st' \<Longrightarrow> positions_match st'"
  by (auto simp: trackWord_def positions_match_def setCurrentWordIndex_def
      split: if_splits option.splits)

lemma positions_match_autoScroll:
  "positions_match st \<Longrightarrow> positions_match (autoScroll SCREEN_HEIGHT st)"
  by (auto simp: autoScroll_def positions_match_def split: option.splits)

lemma positions_match_onLayout: "positions_match st \<Longrightarrow> positions_match (onLayout i y st)"
  by (auto simp: onLayout_def positions_match_def split: option.splits)

lemma mobile_reachable_positions_match: "mobile_reachable st \<Longrightarrow> positions_match st"
proof (induction rule: mobile_reachable.induct)
  case initial
  show ?case by (simp add: positions_match_def initial_state_def)
next
  case (track st position st')
  then show ?case by (simp add: positions_match_trackWord)
next
  case (finished st)
  then show ?case
    by (auto simp: positions_match_def playbackFinished_def setCurrentWordIndex_def
        split: option.splits)
next
  case (scroll st SCREEN_HEIGHT)
  then show ?case by (simp add: positions_match_autoScroll)
next
  case (layout st i y)
  then show ?case by (simp add: positions_match_onLayout)
next
  case (read_reset st)
  show ?case by (simp add: positions_match_def handleRead_reset_def setCurrentWordIndex_def)
next
  case (read_data st pages timings)
  show ?case by (simp add: positions_match_def handleRead_data_def)
next
  case (play st url)
  then show ?case
    by (auto simp: positions_match_def loadAndPlayAudio_def split: option.splits)
next
  case (close st)
  show ?case by (simp add: positions_match_def closeAudio_def setCurrentWordIndex_def)
next
  case (toggle st b)
  then show ?case by (auto simp: positions_match_def split: option.splits)
qed

text \<open>The ref and the state of the current word hold the same index.\<close>

lemma mobile_reachable_ref: "mobile_reachable st \<Longrightarrow> currentWordRef st = currentWordIndex st"
proof (induction rule: mobile_reachable.induct)
  case (track st position st')
  then show ?case
    by (auto simp: trackWord_def setCurrentWordIndex_def split: if_splits option.splits)
next
  case (scroll st SCREEN_HEIGHT)
  then show ?case by (auto simp: autoScroll_def split: option.splits)
next
  case (layout st i y)
  then show ?case by (auto simp: onLayout_def split: option.splits)
qed (simp_all add: initial_state_def playbackFinished_def setCurrentWordIndex_def
    handleRead_reset_def handleRead_data_def loadAndPlayAudio_def closeAudio_def)

text \<open>
  When the effect has computed a target in such a state, the \<open>ScrollView\<close> is mounted.
\<close>

lemma scrollTarget_mounted:
  "positions_match st \<Longrightarrow> scrollTarget SCREEN_HEIGHT st = Some t \<Longrightarrow> scrollViewMounted st"
  by (auto simp: scrollTarget_def positions_match_def scrollViewMounted_def
      split: if_splits option.splits)

lemmas mobile_defs = mobile_loaded_def mobile_measured_def mobile_at_cat_def mobile_at_sat_def
  handleRead_def handleRead_reset_def handleRead_data_def loadAndPlayAudio_def initial_state_def
  setCurrentWordIndex_def onLayout_def scenario1_def mobile_middle_def scrollViewMounted_def

lemmas web_defs = web_loaded_def web_mounted_def web_at_cat_def web_playing_cat_def
  web_handleRead_def web_handleRead_reset_def web_handleRead_data_def web_initial_state_def
  web_setCurrentWordIndex_def setWordRef_def

text \<open>The example states are states the handlers produce.\<close>

lemma mobile_examples:
  "trackWord mobile_measured 250 = Some mobile_at_cat"
  "trackWord (autoScroll 800 mobile_at_cat) 600 = Some mobile_at_sat"
  "trackWord (onLayout 1 500 mobile_loaded) 250 = Some mobile_middle"
  by (simp_all add: mobile_defs trackWord_def findWordIndex_def get_at_def
      findWordIndex_loop.simps autoScroll_def scrollTarget_def)

lemma mobile_examples_reachable:
  "mobile_reachable mobile_loaded" "mobile_reachable mobile_measured"
  "mobile_reachable mobile_at_cat" "mobile_reachable mobile_at_sat"
  "mobile_reachable mobile_middle"
proof -
  have "mobile_reachable (handleRead_reset initial_state)"
    using mobile_reachable.initial by (rule mobile_reachable.read_reset)
  then have "mobile_reachable (handleRead_data [1] scenario1 (handleRead_reset initial_state))"
    by (rule mobile_reachable.read_data)
  then show l: "mobile_reachable mobile_loaded"
    unfolding mobile_loaded_def handleRead_def by (rule mobile_reachable.play)
  then have "mobile_reachable (onLayout 0 400 mobile_loaded)"
    by (rule mobile_reachable.layout)
  then have "mobile_reachable (onLayout 1 400 (onLayout 0 400 mobile_loaded))"
    by (rule mobile_reachable.layout)
  then show "mobile_reachable mobile_measured"
    unfolding mobile_measured_def by (rule mobile_reachable.layout)
  then show c: "mobile_reachable mobile_at_cat"
    using mobile_examples(1) by (rule mobile_reachable.track)
  have "mobile_reachable (autoScroll 800 mobile_at_cat)"
    using c by (rule mobile_reachable.scroll)
  then show "mobile_reachable mobile_at_sat"
    using mobile_examples(2) by (rule mobile_reachable.track)
  have "mobile_reachable (onLayout 1 500 mobile_loaded)"
    using l by (rule mobile_reachable.layout)
  then show "mobile_reachable mobile_middle"
    using mobile_examples(3) by (rule mobile_reachable.track)
qed

lemma web_examples:
  "handleTimeUpdate (web_mounted\<lparr>web_audioRef := Some 0.25\<rparr>) = Some web_at_cat"
  "handleTimeUpdate ((web_autoScroll dom_last_line web_at_cat)\<lparr>web_audioRef := Some 0.6\<rparr>) =
     Some web_at_sat"
  by (simp_all add: web_defs web_at_sat_def scenario1_def handleTimeUpdate_def
      web_findWordIndex_def get_at_def web_findWordIndex_loop.simps web_autoScroll_def
      dom_last_line_def)

text \<open>
  The render of the web page. The two passes over the word elements leave the table as
  follows, and a render keeps \<open>refs_mounted\<close>; so every state the page reaches has it.
\<close>

lemma setWordRef_fields [simp]:
  "web_wordTimings (setWordRef i el st) = web_wordTimings st"
  "web_currentWordIndex (setWordRef i el st) = web_currentWordIndex st"
  "web_showReader (setWordRef i el st) = web_showReader st"
  "web_audioUrl (setWordRef i el st) = web_audioUrl st"
  "web_loading (setWordRef i el st) = web_loading st"
  by (simp_all add: setWordRef_def)

lemma fold_setWordRef_None:
  "fold (\<lambda>i. setWordRef i None) [0..<n] st =
     st\<lparr>web_wordRefs := replicate n None @ drop n (web_wordRefs st)\<rparr>"
proof (induction n)
  case 0
  show ?case by simp
next
  case (Suc n)
  show ?case
  proof (cases "n < length (web_wordRefs st)")
    case True
    then have "(replicate n None @ drop n (web_wordRefs st))[n := None] =
        replicate (Suc n) None @ drop (Suc n) (web_wordRefs st)"
      by (simp add: list_update_append replicate_append_same Cons_nth_drop_Suc[symmetric]
          flip: replicate_Suc)
    with True Suc show ?thesis by (simp add: setWordRef_def)
  next
    case False
    with Suc show ?thesis by (simp add: setWordRef_def replicate_append_same)
  qed
qed

lemma fold_setWordRef_Some:
  "fold (\<lambda>i. setWordRef i (Some i)) [0..<n] st =
     st\<lparr>web_wordRefs := map Some [0..<n] @ drop n (web_wordRefs st)\<rparr>"
proof (induction n)
  case 0
  show ?case by simp
next
  case (Suc n)
  show ?case
  proof (cases "n < length (web_wordRefs st)")
    case True
    then have "(map Some [0..<n] @ drop n (web_wordRefs st))[n := Some n] =
        map Some [0..<Suc n] @ drop (Suc n) (web_wordRefs st)"
      by (simp add: list_update_append Cons_nth_drop_Suc[symmetric])
    with True Suc show ?thesis by (simp add: setWordRef_def)
  next
    case False
    with Suc show ?thesis by (simp add: setWordRef_def)
  qed
qed

lemma commit_refs:
  "web_wordRefs (commit pre post) =
     map Some [0..<spansMounted post] @
       drop (spansMounted post)
         (replicate (spansMounted pre) None @ drop (spansMounted pre) (web_wordRefs post))"
  by (simp add: commit_def fold_setWordRef_None fold_setWordRef_Some)

lemma commit_fields [simp]:
  "web_wordTimings (commit pre post) = web_wordTimings post"
  "web_currentWordIndex (commit pre post) = web_currentWordIndex post"
  "web_showReader (commit pre post) = web_showReader post"
  "web_audioUrl (commit pre post) = web_audioUrl post"
  "web_loading (commit pre post) = web_loading post"
  "web_published (commit pre post) = web_published post"
  "web_scrolled (commit pre post) = web_scrolled post"
  "web_pagesRead (commit pre post) = web_pagesRead post"
  "web_isPlaying (commit pre post) = web_isPlaying post"
  "web_audioCurrentTime (commit pre post) = web_audioCurrentTime post"
  by (simp_all add: commit_def fold_setWordRef_None fold_setWordRef_Some)

lemma spansMounted_commit [simp]: "spansMounted (commit pre post) = spansMounted post"
  by (simp add: spansMounted_def playerMounted_def)

lemma refs_mounted_commit:
  assumes "set (drop (spansMounted pre) (web_wordRefs post)) \<subseteq> {None}"
  shows "refs_mounted (commit pre post)"
proof -
  have "set (drop (spansMounted post)
          (replicate (spansMounted pre) None @ drop (spansMounted pre) (web_wordRefs post)))
        \<subseteq> set (replicate (spansMounted pre) None @ drop (spansMounted pre) (web_wordRefs post))"
    by (rule set_drop_subset)
  also have "\<dots> \<subseteq> {None}" using assms by auto
  finally show ?thesis by (simp add: refs_mounted_def commit_refs)
qed

lemma refs_mounted_handleTimeUpdate:
  "handleTimeUpdate st = Some st' \<Longrightarrow>
     web_wordRefs st' = web_wordRefs st"
  by (auto simp: handleTimeUpdate_def web_setCurrentWordIndex_def
      split: option.splits if_splits)

lemma web_autoScroll_frame:
  "web_wordRefs (web_autoScroll d st) = web_wordRefs st"
  "spansMounted (web_autoScroll d st) = spansMounted st"
  by (auto simp: web_autoScroll_def spansMounted_def playerMounted_def
      split: option.splits prod.splits)

lemma web_reachable_refs_mounted: "web_reachable st \<Longrightarrow> refs_mounted st"
proof (induction rule: web_reachable.induct)
  case web_initial
  show ?case by (simp add: refs_mounted_def web_initial_state_def)
next
  case (web_time st t st')
  from web_time.hyps(3) have "web_wordRefs st' = web_wordRefs st"
    by (auto dest: refs_mounted_handleTimeUpdate)
  with web_time.IH show ?case
    by (intro refs_mounted_commit) (simp add: refs_mounted_def)
next
  case (web_scroll st d)
  then show ?case by (simp add: refs_mounted_def web_autoScroll_frame)
next
  case (web_ended st)
  then show ?case
    by (intro refs_mounted_commit)
      (simp add: refs_mounted_def web_onEnded_def web_setCurrentWordIndex_def)
next
  case (web_read_reset st)
  then show ?case
    by (intro refs_mounted_commit)
      (simp add: refs_mounted_def web_handleRead_reset_def web_setCurrentWordIndex_def)
next
  case (web_read_data st pages timings url)
  have "set (drop (spansMounted st) (replicate (length timings) (None :: nat option))) \<subseteq> {None}"
    using set_drop_subset[of "spansMounted st" "replicate (length timings) (None :: nat option)"]
    by auto
  then show ?case
    by (intro refs_mounted_commit) (simp add: web_handleRead_data_def)
next
  case (web_stop st)
  then show ?case
    unfolding handleStop_def
    by (intro refs_mounted_commit)
      (simp add: refs_mounted_def handleStop_updates_def web_setCurrentWordIndex_def)
next
  case (web_toggle st b)
  then show ?case
    by (intro refs_mounted_commit) (simp add: refs_mounted_def)
qed

lemma handleStop_refs:
  "web_wordRefs (handleStop w) =
     replicate (spansMounted w) None @ drop (spansMounted w) (web_wordRefs w)"
  by (simp add: handleStop_def commit_refs spansMounted_def playerMounted_def
      handleStop_updates_def web_setCurrentWordIndex_def)

lemma handleStop_cleared: "refs_mounted w \<Longrightarrow> set (web_wordRefs (handleStop w)) \<subseteq> {None}"
  by (auto simp: handleStop_refs refs_mounted_def)

lemma web_at_cat_page:
  "spansMounted web_at_cat = 3" "web_wordRefs web_at_cat = [Some 0, Some 1, Some 2]"
  "web_audioRef web_at_cat = Some 0.25" "refs_mounted web_at_cat"
  by (simp_all add: web_defs scenario1_def spansMounted_def playerMounted_def refs_mounted_def)

lemma web_mounted_rendered:
  "commit (commit web_initial_state (web_handleRead_reset web_initial_state)) web_loaded =
     web_mounted"
  by (simp add: commit_def fold_setWordRef_None fold_setWordRef_Some spansMounted_def
      playerMounted_def web_defs scenario1_def numeral_3_eq_3 upt_rec)

lemma web_examples_reachable:
  "web_reachable web_mounted" "web_reachable web_at_cat"
proof -
  let ?r = "web_handleRead_reset web_initial_state"
  have r: "commit web_initial_state ?r = ?r"
    by (simp add: commit_def spansMounted_def playerMounted_def web_defs)
  have "web_reachable (commit web_initial_state ?r)"
    using web_reachable.web_initial by (rule web_reachable.web_read_reset)
  then have "web_reachable ?r" by (simp only: r)
  then have "web_reachable (commit ?r (web_handleRead_data [1] scenario1 ''audio.mp3'' ?r))"
    by (rule web_reachable.web_read_data)
  then show m: "web_reachable web_mounted"
    using web_mounted_rendered by (simp add: r web_loaded_def web_handleRead_def)
  have a: "web_audioRef web_mounted \<noteq> None" by (simp add: web_defs)
  have c: "commit web_mounted web_at_cat = web_at_cat"
    by (simp add: commit_def fold_setWordRef_None fold_setWordRef_Some spansMounted_def
        playerMounted_def web_defs scenario1_def numeral_3_eq_3 upt_rec)
  have "web_reachable (commit web_mounted web_at_cat)"
    using m a web_examples(1) by (rule web_reachable.web_time)
  then show "web_reachable web_at_cat" by (simp only: c)
qed

lemma mobile_scenario:
  "map_option published (trackWords mobile_loaded [100, 150, 150, 600]) =
     Some (published mobile_loaded @ [0, 2])"
  by (simp add: mobile_defs trackWord_def findWordIndex_def get_at_def findWordIndex_loop.simps)

lemma web_scenario:
  "map_option web_published (timeUpdates web_loaded [0.1, 0.15, 0.15, 0.6]) =
     Some (web_published web_loaded @ [0, 2])"
  by (simp add: web_defs scenario1_def handleTimeUpdate_def web_findWordIndex_def get_at_def
      web_findWordIndex_loop.simps)

text \<open>
  Claim C6 (no redundant publish). A position update whose word index is the one already
  published writes nothing: the mobile effect leaves the whole state as it is, the web
  handler leaves the index and the log of its writes as they are (it stores the time it
  displays). So the updates 100, 150, 150, 600 ms against \<open>scenario1\<close> publish two indices,
  0 and then 2, in both clients.
\<close>

theorem position_update_idempotent:
  "(findWordIndex (wordTimingsRef st) pos = Some (currentWordRef st) \<longrightarrow>
      trackWord st pos = Some st) \<and>
   (web_audioRef w = Some t \<and>
    web_findWordIndex (web_wordTimings w) (t * 1000) = Some (web_currentWordIndex w) \<longrightarrow>
      (\<exists>w'. handleTimeUpdate w = Some w' \<and> web_currentWordIndex w' = web_currentWordIndex w \<and>
            web_published w' = web_published w)) \<and>
   map_option published (trackWords mobile_loaded [100, 150, 150, 600]) =
     Some (published mobile_loaded @ [0, 2]) \<and>
   map_option web_published (timeUpdates web_loaded [0.1, 0.15, 0.15, 0.6]) =
     Some (web_published web_loaded @ [0, 2])"
  using mobile_scenario web_scenario
  by (auto simp: trackWord_def handleTimeUpdate_def)

theorem position_update_idempotent_witness:
  "findWordIndex (wordTimingsRef mobile_at_cat) 250 = Some (currentWordRef mobile_at_cat) \<and>
   trackWord mobile_at_cat 250 = Some mobile_at_cat \<and>
   web_audioRef (web_playing_cat 0.25) = Some 0.25 \<and>
   web_findWordIndex (web_wordTimings (web_playing_cat 0.25)) (0.25 * 1000) =
     Some (web_currentWordIndex (web_playing_cat 0.25)) \<and>
   (\<exists>w'. handleTimeUpdate (web_playing_cat 0.25) = Some w' \<and>
         web_currentWordIndex w' = web_currentWordIndex (web_playing_cat 0.25) \<and>
         web_published w' = web_published (web_playing_cat 0.25))"
proof -
  have m: "findWordIndex (wordTimingsRef mobile_at_cat) 250 = Some (currentWordRef mobile_at_cat)"
    by (simp add: mobile_defs findWordIndex_def get_at_def findWordIndex_loop.simps)
  have a: "web_audioRef (web_playing_cat 0.25) = Some 0.25"
    by (simp add: web_defs)
  have w: "web_findWordIndex (web_wordTimings (web_playing_cat 0.25)) (0.25 * 1000) =
      Some (web_currentWordIndex (web_playing_cat 0.25))"
    by (simp add: web_defs scenario1_def web_findWordIndex_def get_at_def
        web_findWordIndex_loop.simps)
  show ?thesis
    using position_update_idempotent[of mobile_at_cat 250 "web_playing_cat 0.25" "0.25"] m a w
    by blast
qed

text \<open>
  Claim C7 (jitter suppression), as amended: in the mobile client. The auto-scroll effect
  calls \<open>scrollTo\<close> only with the target it has computed and only when that target is more
  than 20 pixels from \<open>lastScrollY\<close>, which then becomes that target; in a state whose table
  has one entry for each word, as every state the screen reaches has, it changes
  \<open>lastScrollY\<close> only when it calls \<open>scrollTo\<close>. So when a target has been scrolled to and
  the next computed target is within 20 pixels of it, the effect does nothing for the
  second one.
\<close>

theorem autoScroll_jitter_suppression:
  "(scrolled (autoScroll h st) \<noteq> scrolled st \<longrightarrow>
      (\<exists>t. scrollTarget h st = Some t \<and> \<bar>t - lastScrollY st\<bar> > 20 \<and>
           scrolled (autoScroll h st) = scrolled st @ [t] \<and> lastScrollY (autoScroll h st) = t)) \<and>
   (positions_match st \<and> lastScrollY (autoScroll h st) \<noteq> lastScrollY st \<longrightarrow>
      scrolled (autoScroll h st) \<noteq> scrolled st) \<and>
   (scrolled (autoScroll h st) \<noteq> scrolled st \<and> scrollTarget h st = Some t1 \<and>
    lastScrollY st' = lastScrollY (autoScroll h st) \<and> scrollTarget h st' = Some t2 \<and>
    \<bar>t2 - t1\<bar> \<le> 20 \<longrightarrow>
      autoScroll h st' = st')"
proof (intro conjI impI)
  assume "scrolled (autoScroll h st) \<noteq> scrolled st"
  then show "\<exists>t. scrollTarget h st = Some t \<and> \<bar>t - lastScrollY st\<bar> > 20 \<and>
           scrolled (autoScroll h st) = scrolled st @ [t] \<and> lastScrollY (autoScroll h st) = t"
    by (auto simp: autoScroll_def split: option.splits if_splits)
next
  assume a: "positions_match st \<and> lastScrollY (autoScroll h st) \<noteq> lastScrollY st"
  then obtain t where t: "scrollTarget h st = Some t" "\<bar>t - lastScrollY st\<bar> > 20"
    by (auto simp: autoScroll_def split: option.splits if_splits)
  with a have "scrollViewMounted st" by (simp add: scrollTarget_mounted)
  with t show "scrolled (autoScroll h st) \<noteq> scrolled st"
    by (simp add: autoScroll_def)
next
  assume "scrolled (autoScroll h st) \<noteq> scrolled st \<and> scrollTarget h st = Some t1 \<and>
    lastScrollY st' = lastScrollY (autoScroll h st) \<and> scrollTarget h st' = Some t2 \<and>
    \<bar>t2 - t1\<bar> \<le> 20"
  then show "autoScroll h st' = st'"
    by (auto simp: autoScroll_def split: option.splits if_splits)
qed

theorem autoScroll_jitter_suppression_witness:
  "positions_match mobile_at_cat \<and>
   scrolled (autoScroll 800 mobile_at_cat) \<noteq> scrolled mobile_at_cat \<and>
   lastScrollY (autoScroll 800 mobile_at_cat) \<noteq> lastScrollY mobile_at_cat \<and>
   scrollTarget 800 mobile_at_cat = Some 120 \<and>
   lastScrollY mobile_at_sat = lastScrollY (autoScroll 800 mobile_at_cat) \<and>
   scrollTarget 800 mobile_at_sat = Some 140 \<and> \<bar>140 - 120\<bar> \<le> (20 :: real) \<and>
   autoScroll 800 mobile_at_sat = mobile_at_sat \<and>
   scrolled (autoScroll 800 mobile_at_cat) = scrolled mobile_at_cat @ [120]"
proof -
  have a: "scrollTarget 800 mobile_at_cat = Some 120"
    by (simp add: mobile_defs scrollTarget_def)
  have e: "lastScrollY (autoScroll 800 mobile_at_cat) \<noteq> lastScrollY mobile_at_cat"
    by (simp add: autoScroll_def a) (simp add: mobile_defs)
  have c: "lastScrollY mobile_at_sat = lastScrollY (autoScroll 800 mobile_at_cat)"
    by (simp add: mobile_at_sat_def setCurrentWordIndex_def)
  have d: "scrollTarget 800 mobile_at_sat = Some 140"
    by (simp add: mobile_defs scrollTarget_def autoScroll_def)
  have p: "positions_match mobile_at_cat"
    by (simp add: mobile_defs positions_match_def)
  show ?thesis
    using autoScroll_jitter_suppression[of 800 mobile_at_cat 120 mobile_at_sat 140] a c d e p
    by auto
qed

text \<open>
  The web client keeps no scroll target and has no threshold of 20 pixels: it calls
  \<open>scrollIntoView\<close> whenever the top of the word lies outside the band from 30% to 70% of
  the reader. On the last line of a text, which stays below the band, it scrolls for the
  second word and again for the third, although both are to be brought to the same place.
\<close>

theorem web_scroll_counterexample:
  "web_scrolled (web_autoScroll dom_last_line web_at_cat) = [1] \<and>
   web_scrolled (web_autoScroll dom_last_line web_at_sat) = [1, 2] \<and>
   \<bar>elTop dom_last_line 2 - elTop dom_last_line 1\<bar> \<le> 20"
  by (simp add: web_defs web_at_sat_def scenario1_def web_autoScroll_def dom_last_line_def
      get_at_def)

text \<open>
  Claim C8 (close resets the coupling). After the close the published index is \<open>-1\<close>, the
  timings are empty, the table of word positions is cleared and the stored scroll target
  is back at its initial value, so nothing of the closed segment shows when the next one
  is loaded. In the mobile client \<open>closeAudio\<close> writes all of it: index (state and ref)
  \<open>-1\<close>, timings empty, no table of positions, \<open>lastScrollY\<close> 0 as at the start. In the web
  client, which stores no scroll target, the index is \<open>-1\<close> and the timings are empty
  after \<open>handleStop\<close>, and the render of the stop empties the table of word elements (in a
  state with \<open>refs_mounted\<close>, as every state the page reaches is) and takes the audio
  element away. In both clients a position update or a run of the auto-scroll effect after
  the close changes nothing, and loading a segment after the close gives the state that
  loading it into a fresh screen gives, apart from the logs and, on the web, the time on
  display.
\<close>

theorem close_resets_coupling:
  "currentWordIndex (closeAudio st) = - 1 \<and> currentWordRef (closeAudio st) = - 1 \<and>
   wordTimings (closeAudio st) = [] \<and> wordTimingsRef (closeAudio st) = [] \<and>
   wordYPositions (closeAudio st) = None \<and> lastScrollY (closeAudio st) = 0 \<and>
   lastScrollY (closeAudio st) = lastScrollY initial_state \<and>
   trackWord (closeAudio st) pos = Some (closeAudio st) \<and>
   autoScroll h (closeAudio st) = closeAudio st \<and>
   handleRead pages T url (closeAudio st) =
     (handleRead pages T url initial_state)
       \<lparr>published := published st @ [- 1, - 1], scrolled := scrolled st\<rparr> \<and>
   web_currentWordIndex (handleStop w) = - 1 \<and> web_wordTimings (handleStop w) = [] \<and>
   (refs_mounted w \<longrightarrow> set (web_wordRefs (handleStop w)) \<subseteq> {None}) \<and>
   web_audioRef (handleStop w) = None \<and>
   handleTimeUpdate (handleStop w) = Some (handleStop w) \<and>
   web_autoScroll d (handleStop w) = handleStop w \<and>
   web_handleRead pages T url (handleStop w) =
     (web_handleRead pages T url web_initial_state)
       \<lparr>web_audioCurrentTime := web_audioCurrentTime w,
        web_published := web_published w @ [- 1, - 1], web_scrolled := web_scrolled w\<rparr>"
proof -
  have mobile:
    "currentWordIndex (closeAudio st) = - 1 \<and> currentWordRef (closeAudio st) = - 1 \<and>
     wordTimings (closeAudio st) = [] \<and> wordTimingsRef (closeAudio st) = [] \<and>
     wordYPositions (closeAudio st) = None \<and> lastScrollY (closeAudio st) = 0 \<and>
     lastScrollY (closeAudio st) = lastScrollY initial_state \<and>
     trackWord (closeAudio st) pos = Some (closeAudio st) \<and>
     autoScroll h (closeAudio st) = closeAudio st \<and>
     handleRead pages T url (closeAudio st) =
       (handleRead pages T url initial_state)
         \<lparr>published := published st @ [- 1, - 1], scrolled := scrolled st\<rparr>"
    by (simp add: closeAudio_def setCurrentWordIndex_def trackWord_def autoScroll_def
        scrollTarget_def handleRead_def handleRead_reset_def handleRead_data_def
        loadAndPlayAudio_def initial_state_def)
  have u: "web_currentWordIndex (handleStop_updates w) = - 1"
    "web_wordTimings (handleStop_updates w) = []" "web_audioUrl (handleStop_updates w) = None"
    "web_showReader (handleStop_updates w) = False"
    "web_published (handleStop_updates w) = web_published w @ [- 1]"
    "web_scrolled (handleStop_updates w) = web_scrolled w"
    "web_audioCurrentTime (handleStop_updates w) = web_audioCurrentTime w"
    by (simp_all add: handleStop_updates_def web_setCurrentWordIndex_def)
  have s: "web_currentWordIndex (handleStop w) = - 1" "web_wordTimings (handleStop w) = []"
    "web_showReader (handleStop w) = False" "web_audioUrl (handleStop w) = None"
    by (simp_all add: handleStop_def u)
  have a: "web_audioRef (handleStop w) = None"
    by (simp add: handleStop_def commit_def playerMounted_def u)
  have t: "handleTimeUpdate (handleStop w) = Some (handleStop w)"
    by (simp add: handleTimeUpdate_def a)
  have sc: "web_autoScroll d (handleStop w) = handleStop w"
    by (simp add: web_autoScroll_def s)
  have l: "web_handleRead pages T url (handleStop w) =
     (web_handleRead pages T url web_initial_state)
       \<lparr>web_audioCurrentTime := web_audioCurrentTime w,
        web_published := web_published w @ [- 1, - 1], web_scrolled := web_scrolled w\<rparr>"
    by (simp add: web_handleRead_def web_handleRead_reset_def web_handleRead_data_def
        web_setCurrentWordIndex_def web_initial_state_def handleStop_def commit_def
        fold_setWordRef_None fold_setWordRef_Some spansMounted_def playerMounted_def
        handleStop_updates_def)
  show ?thesis
    using mobile s(1,2) a t sc l handleStop_cleared[of w] by blast
qed

theorem close_resets_coupling_witness:
  "refs_mounted web_at_cat \<and> web_wordRefs web_at_cat = [Some 0, Some 1, Some 2] \<and>
   set (web_wordRefs (handleStop web_at_cat)) \<subseteq> {None} \<and>
   web_currentWordIndex (handleStop web_at_cat) = - 1 \<and>
   web_wordTimings (handleStop web_at_cat) = [] \<and>
   web_audioRef (handleStop web_at_cat) = None \<and>
   currentWordIndex (closeAudio mobile_at_sat) = - 1 \<and>
   wordYPositions (closeAudio mobile_at_sat) = None \<and>
   lastScrollY (closeAudio mobile_at_sat) = 0"
  using close_resets_coupling[of mobile_at_sat 0 800 "[1]" scenario1 "''audio.mp3''"
      web_at_cat dom_middle]
    web_at_cat_page(2,4)
  by blast

text \<open>
  On the example page the table holds the three elements of the segment before the stop
  and three nulls after it.
\<close>

lemma handleStop_web_at_cat:
  "web_wordRefs (handleStop web_at_cat) = [None, None, None]"
  "web_audioRef (handleStop web_at_cat) = None"
  by (simp_all add: handleStop_refs web_at_cat_page numeral_3_eq_3)
    (simp add: handleStop_def commit_def handleStop_updates_def playerMounted_def
      web_setCurrentWordIndex_def fold_setWordRef_None fold_setWordRef_Some)

text \<open>
  Claim C9 (the two clients), as amended. The two \<open>findWordIndex\<close> functions return the
  same result on every input, and on states that agree on the timings and the published
  index, a position update publishes the same index in both clients. The scroll steps
  are left out: they differ.
\<close>

theorem clients_agree_on_index:
  "web_findWordIndex T pos = findWordIndex T pos \<and>
   (wordTimingsRef m = web_wordTimings w \<and> currentWordRef m = web_currentWordIndex w \<and>
    currentWordIndex m = web_currentWordIndex w \<and> web_audioRef w = Some t \<longrightarrow>
      (\<exists>m' w' new. trackWord m (t * 1000) = Some m' \<and> handleTimeUpdate w = Some w' \<and>
         currentWordRef m' = web_currentWordIndex w' \<and>
         currentWordIndex m' = web_currentWordIndex w' \<and>
         published m' = published m @ new \<and> web_published w' = web_published w @ new))"
proof -
  have "\<exists>m' w' new. trackWord m (t * 1000) = Some m' \<and> handleTimeUpdate w = Some w' \<and>
         currentWordRef m' = web_currentWordIndex w' \<and>
         currentWordIndex m' = web_currentWordIndex w' \<and>
         published m' = published m @ new \<and> web_published w' = web_published w @ new"
    if h: "wordTimingsRef m = web_wordTimings w" "currentWordRef m = web_currentWordIndex w"
      "currentWordIndex m = web_currentWordIndex w" "web_audioRef w = Some t"
  proof -
    obtain r where r: "findWordIndex (web_wordTimings w) (t * 1000) = Some r"
      using findWordIndex_result by blast
    show ?thesis
    proof (cases "web_wordTimings w = [] \<or> r = web_currentWordIndex w")
      case True
      with h r show ?thesis
        by (auto simp: trackWord_def handleTimeUpdate_def web_findWordIndex_eq)
    next
      case False
      with h r show ?thesis
        by (auto simp: trackWord_def handleTimeUpdate_def web_findWordIndex_eq
            setCurrentWordIndex_def web_setCurrentWordIndex_def)
    qed
  qed
  then show ?thesis by (simp add: web_findWordIndex_eq)
qed

theorem clients_agree_on_index_witness:
  "wordTimingsRef mobile_at_cat = web_wordTimings (web_playing_cat 0.6) \<and>
   currentWordRef mobile_at_cat = web_currentWordIndex (web_playing_cat 0.6) \<and>
   currentWordIndex mobile_at_cat = web_currentWordIndex (web_playing_cat 0.6) \<and>
   web_audioRef (web_playing_cat 0.6) = Some 0.6 \<and>
   (\<exists>m' w' new. trackWord mobile_at_cat (0.6 * 1000) = Some m' \<and>
      handleTimeUpdate (web_playing_cat 0.6) = Some w' \<and>
      currentWordRef m' = web_currentWordIndex w' \<and>
      currentWordIndex m' = web_currentWordIndex w' \<and>
      published m' = published mobile_at_cat @ new \<and>
      web_published w' = web_published (web_playing_cat 0.6) @ new)"
proof -
  have "wordTimingsRef mobile_at_cat = web_wordTimings (web_playing_cat 0.6)"
    "currentWordRef mobile_at_cat = web_currentWordIndex (web_playing_cat 0.6)"
    "currentWordIndex mobile_at_cat = web_currentWordIndex (web_playing_cat 0.6)"
    "web_audioRef (web_playing_cat 0.6) = Some 0.6"
    by (simp_all add: mobile_defs web_defs)
  then show ?thesis
    using clients_agree_on_index[of scenario1 0 mobile_at_cat "web_playing_cat 0.6" "0.6"]
    by blast
qed

text \<open>
  The scroll steps differ. With the second word 500 pixels down a view 1000 pixels high
  that has not been scrolled, the mobile client scrolls to 150 (the word is more than 20
  pixels from where the target puts it), the web client does not scroll (the word is
  inside the band).
\<close>

theorem scroll_steps_differ_counterexample:
  "scrolled (autoScroll 1000 mobile_middle) = [150] \<and>
   web_scrolled (web_autoScroll dom_middle web_at_cat) = [] \<and>
   currentWordIndex mobile_middle = web_currentWordIndex web_at_cat \<and>
   wordYPositions mobile_middle = Some [0, 500, 0] \<and> lastScrollY mobile_middle = 0 \<and>
   elTop dom_middle 1 = 500"
  by (simp add: mobile_defs scrollTarget_def autoScroll_def web_defs web_autoScroll_def
      dom_middle_def get_at_def)

end
